theory Spec2Isabelle
  imports Complex_Main "HOL-Library.Product_Lexorder"
begin

section \<open>Python values used by both programs\<close>

text \<open>
  Time stamps are Python floats holding seconds; they are modelled as reals and the
  product \<open>x * 1000\<close> as exact. \<open>int(x)\<close> truncates towards zero.
\<close>

definition py_int :: "real \<Rightarrow> int" where
  "py_int x = (if 0 \<le> x then \<lfloor>x\<rfloor> else \<lceil>x\<rceil>)"

datatype py_error = TypeError | ValueError | OverflowError | IndexError

text \<open>
  Text is modelled as ASCII: \<open>str.isalnum\<close>, \<open>str.lower\<close> and \<open>str.strip\<close> are given
  for the characters below 128 (letters, digits, ASCII white space); every other
  character counts as neither alphanumeric nor white space.
\<close>

definition ascii_digits :: string where
  "ascii_digits = ''0123456789''"

definition ascii_uppercase :: string where
  "ascii_uppercase = ''ABCDEFGHIJKLMNOPQRSTUVWXYZ''"

definition ascii_lowercase :: string where
  "ascii_lowercase = ''abcdefghijklmnopqrstuvwxyz''"

definition ascii_whitespace :: string where
  "ascii_whitespace =
     [CHR 0x09, CHR 0x0A, CHR 0x0B, CHR 0x0C, CHR 0x0D, CHR 0x1C, CHR 0x1D, CHR 0x1E, CHR 0x1F,
      CHR '' '']"

definition isdigit :: "char \<Rightarrow> bool" where
  "isdigit c = (c \<in> set ascii_digits)"

definition isupper :: "char \<Rightarrow> bool" where
  "isupper c = (c \<in> set ascii_uppercase)"

definition islower :: "char \<Rightarrow> bool" where
  "islower c = (c \<in> set ascii_lowercase)"

definition isalnum :: "char \<Rightarrow> bool" where
  "isalnum c = (isdigit c \<or> isupper c \<or> islower c)"

definition isspace :: "char \<Rightarrow> bool" where
  "isspace c = (c \<in> set ascii_whitespace)"

definition lower_char :: "char \<Rightarrow> char" where
  "lower_char c =
     (case map_of (zip ascii_uppercase ascii_lowercase) c of None \<Rightarrow> c | Some l \<Rightarrow> l)"

definition lower :: "string \<Rightarrow> string" where
  "lower s = map lower_char s"

definition strip :: "string \<Rightarrow> string" where
  "strip s = rev (dropWhile isspace (rev (dropWhile isspace s)))"

definition endswith :: "string \<Rightarrow> string \<Rightarrow> bool" where
  "endswith s suffix = (length suffix \<le> length s \<and> drop (length s - length suffix) s = suffix)"

section \<open>The audio buffer\<close>

text \<open>
  Modelled from the spec: the Audio Buffer. The repository takes it from the codec library
  (\<open>pydub.AudioSegment\<close>), which is not among its sources. Following the spec it is a
  timeline of millisecond frames that is sliced by millisecond offsets, concatenated,
  appended with a crossfade and overlaid with a patch; a frame is a millisecond of the
  loaded recording, of the generated tone, or a mix of two frames. Where the spec is silent
  (offsets outside the buffer, a crossfade longer than a buffer) the definitions follow the
  library.
\<close>

datatype 'a frame =
    Orig 'a
  | Tone
  | Overlaid "'a frame" "'a frame"
  | Crossfaded "'a frame" "'a frame"

type_synonym 'a audio = "'a frame list"

definition len :: "'a list \<Rightarrow> int" where
  "len xs = int (length xs)"

text \<open>Python's \<open>xs[i:j]\<close> on a sequence: negative indices count from the end, all are clamped.\<close>

definition py_index :: "'a list \<Rightarrow> int \<Rightarrow> nat" where
  "py_index xs k = nat (if k < 0 then max 0 (k + len xs) else min k (len xs))"

definition py_slice :: "'a list \<Rightarrow> int \<Rightarrow> int \<Rightarrow> 'a list" where
  "py_slice xs i j = drop (py_index xs i) (take (py_index xs j) xs)"

text \<open>
  \<open>audio[start:end]\<close>: the library caps both offsets at the length, counts a negative
  offset from the end, and slices its frame data.
\<close>

definition parse_position :: "'a list \<Rightarrow> int \<Rightarrow> int" where
  "parse_position a v = (if v < 0 then len a - \<bar>v\<bar> else v)"

definition slice :: "'a list \<Rightarrow> int \<Rightarrow> int \<Rightarrow> 'a list" where
  "slice a start stop =
     py_slice a (parse_position a (min start (len a))) (parse_position a (min stop (len a)))"

text \<open>\<open>audio[start:]\<close> and \<open>audio[:stop]\<close>.\<close>

definition slice_from :: "'a list \<Rightarrow> int \<Rightarrow> 'a list" where
  "slice_from a start = slice a start (len a)"

definition slice_to :: "'a list \<Rightarrow> int \<Rightarrow> 'a list" where
  "slice_to a stop = slice a 0 stop"

text \<open>\<open>Sine(1000).to_audio_segment(duration=d).apply_gain(-6)\<close>: \<open>d\<close> milliseconds of tone.\<close>

definition tone :: "int \<Rightarrow> 'a audio" where
  "tone d = replicate (nat d) Tone"

text \<open>
  \<open>seg1.overlay(seg2, position=p)\<close>: the frames before \<open>p\<close>, then the patch mixed onto
  the frames from \<open>p\<close> on (the patch cut to what remains), then the rest.
\<close>

definition overlay :: "'a audio \<Rightarrow> 'a audio \<Rightarrow> int \<Rightarrow> 'a audio" where
  "overlay seg1 seg2 position =
     (let head = slice_to seg1 position;
          rest = slice_from seg1 position;
          patch = take (length rest) seg2
      in head @ map2 Overlaid (take (length patch) rest) patch @ drop (length patch) rest)"

text \<open>
  \<open>seg1.append(seg2, crossfade=c)\<close>: a plain concatenation when \<open>c\<close> is zero, a
  \<open>ValueError\<close> when \<open>c\<close> is longer than either buffer, otherwise the last \<open>c\<close> frames
  of \<open>seg1\<close> are mixed with the first \<open>c\<close> frames of \<open>seg2\<close>.
\<close>

definition append_crossfade :: "'a audio \<Rightarrow> 'a audio \<Rightarrow> int \<Rightarrow> py_error + 'a audio" where
  "append_crossfade seg1 seg2 crossfade =
     (if crossfade = 0 then Inr (seg1 @ seg2)
      else if crossfade > len seg1 then Inl ValueError
      else if crossfade > len seg2 then Inl ValueError
      else Inr (slice_to seg1 (- crossfade)
                @ map2 Crossfaded (slice_from seg1 (- crossfade)) (slice_to seg2 crossfade)
                @ slice_from seg2 crossfade))"

section \<open>filler\_remover15: detection, interval merging and reassembly\<close>

subsection \<open>Transcript words (transcribe\_audio, lines 41--51)\<close>

text \<open>
  A word of the transcript: the dictionary with the keys \<open>word\<close>, \<open>start\<close> and \<open>end\<close>
  (seconds). A segment is the dictionary with the key \<open>words\<close>.
\<close>

record timed_word =
  word :: string
  start_s :: real
  end_s :: real

record segment =
  words :: "timed_word list"

text \<open>
  The loop that builds \<open>result_segments\<close> from what the speech model yields: for each of its
  segments the word list (\<open>None\<close> when the segment has none), each word stripped and
  lower-cased.
\<close>

definition result_segments :: "timed_word list option list \<Rightarrow> segment list" where
  "result_segments segments =
     map (\<lambda>segment_words.
            \<lparr>words = (case segment_words of
                        None \<Rightarrow> []
                      | Some ws \<Rightarrow>
                          map (\<lambda>w. \<lparr>word = lower (strip (word w)),
                                     start_s = start_s w, end_s = end_s w\<rparr>) ws)\<rparr>)
         segments"

text \<open>
  \<open>transcribe_audio\<close>, given the model's outcome: its segments, or the text of the exception
  it raised.
\<close>

definition transcribe_audio :: "string + timed_word list option list \<Rightarrow> string + segment list" where
  "transcribe_audio outcome =
     (case outcome of
        Inl e \<Rightarrow> Inl (''Transcription failed: '' @ e)
      | Inr segments \<Rightarrow> Inr (result_segments segments))"

subsection \<open>Detection (find\_fillers, find\_stutters)\<close>

definition FILLER_WORDS :: "string set" where
  "FILLER_WORDS = {''um'', ''uh'', ''er'', ''hmm'', ''mhm'', ''uh-huh'', ''um-hum'', ''umm'',
     ''uhh'', ''erm'', ''ooh''}"

definition EXCLUSIONS :: "string set" where
  "EXCLUSIONS = {''a'', ''and'', ''the''}"

text \<open>\<open>int(word['start'] * 1000)\<close> and \<open>int(word['end'] * 1000)\<close>.\<close>

definition start_ms :: "timed_word \<Rightarrow> int" where
  "start_ms w = py_int (start_s w * 1000)"

definition end_ms :: "timed_word \<Rightarrow> int" where
  "end_ms w = py_int (end_s w * 1000)"

text \<open>The inner loop of \<open>find_fillers\<close> over the words of one segment.\<close>

fun filler_hits :: "string set \<Rightarrow> timed_word list \<Rightarrow> (int \<times> int \<times> string) list" where
  "filler_hits filler_list [] = []"
| "filler_hits filler_list (w # ws) =
     (let clean_word = filter isalnum (word w)
      in if clean_word \<in> EXCLUSIONS then filler_hits filler_list ws
         else if clean_word \<in> filler_list
           then (start_ms w, end_ms w, clean_word) # filler_hits filler_list ws
           else filler_hits filler_list ws)"

definition find_fillers :: "segment list \<Rightarrow> string set \<Rightarrow> (int \<times> int \<times> string) list" where
  "find_fillers segments filler_list =
     concat (map (\<lambda>seg. filler_hits filler_list (words seg)) segments)"



subsection \<open>Merging the cut intervals (process\_audio\_pydub, lines 114--122)\<close>

type_synonym cut = "int \<times> int"

text \<open>\<open>sorted([(s, e) for s, e, _ in segments_to_remove])\<close>: tuples sort lexicographically.\<close>

definition segments_time :: "(int \<times> int \<times> 'l) list \<Rightarrow> cut list" where
  "segments_time segments_to_remove = sort (map (\<lambda>(s, e, _). (s, e)) segments_to_remove)"

text \<open>
  One round of the loop: the interval is widened and clamped, then either extends the
  last merged cut or is appended.
\<close>

definition merge_step :: "int \<Rightarrow> int \<Rightarrow> int \<Rightarrow> cut list \<Rightarrow> cut \<Rightarrow> cut list" where
  "merge_step duration_ms start_offset_ms padding_ms merged se =
     (let start = max 0 (fst se - start_offset_ms);
          stop = min duration_ms (snd se + padding_ms)
      in if merged \<noteq> [] \<and> start \<le> snd (last merged)
         then butlast merged @ [(fst (last merged), max (snd (last merged)) stop)]
         else merged @ [(start, stop)])"

definition merged_cuts :: "int \<Rightarrow> int \<Rightarrow> int \<Rightarrow> (int \<times> int \<times> 'l) list \<Rightarrow> cut list" where
  "merged_cuts duration_ms start_offset_ms padding_ms segments_to_remove =
     foldl (merge_step duration_ms start_offset_ms padding_ms) []
       (segments_time segments_to_remove)"

text \<open>A cut list read back as an interval list (the label is not looked at).\<close>

definition as_segments :: "cut list \<Rightarrow> (int \<times> int \<times> unit) list" where
  "as_segments cuts = map (\<lambda>(s, e). (s, e, ())) cuts"

subsection \<open>BEEP mode (process\_audio\_pydub, lines 126--132)\<close>

fun beep_loop :: "'a audio \<Rightarrow> cut list \<Rightarrow> 'a audio" where
  "beep_loop processed_audio [] = processed_audio"
| "beep_loop processed_audio ((start_cut, end_cut) # cuts) =
     (let beep_duration = end_cut - start_cut
      in if beep_duration < 1 then beep_loop processed_audio cuts
         else beep_loop (overlay processed_audio (tone beep_duration) start_cut) cuts)"

subsection \<open>CUT mode (process\_audio\_pydub, lines 134--150)\<close>

text \<open>
  Appending a kept span: with a crossfade when the output is not empty and
  \<open>crossfade_ms > 0\<close>, by \<open>+=\<close> otherwise.
\<close>

definition add_span :: "int \<Rightarrow> 'a audio \<Rightarrow> 'a audio \<Rightarrow> py_error + 'a audio" where
  "add_span crossfade_ms processed_audio kept =
     (if len processed_audio > 0 \<and> crossfade_ms > 0
      then append_crossfade processed_audio kept crossfade_ms
      else Inr (processed_audio @ kept))"

text \<open>
  The loop over the cuts with its state \<open>processed_audio\<close>, \<open>last_pos\<close>, and, when the cuts
  are used up, the tail after the last cut.
\<close>

fun cut_loop :: "'a audio \<Rightarrow> int \<Rightarrow> 'a audio \<Rightarrow> int \<Rightarrow> cut list \<Rightarrow> py_error + 'a audio" where
  "cut_loop original_audio crossfade_ms processed_audio last_pos [] =
     (if last_pos < len original_audio
      then add_span crossfade_ms processed_audio (slice_from original_audio last_pos)
      else Inr processed_audio)"
| "cut_loop original_audio crossfade_ms processed_audio last_pos ((start_cut, end_cut) # cuts) =
     (if last_pos < start_cut
      then (case add_span crossfade_ms processed_audio
                    (slice original_audio last_pos start_cut) of
              Inl e \<Rightarrow> Inl e
            | Inr processed \<Rightarrow> cut_loop original_audio crossfade_ms processed end_cut cuts)
      else cut_loop original_audio crossfade_ms processed_audio end_cut cuts)"

text \<open>Lines 126--150: the spec's \<open>reassemble\<close>, BEEP mode when \<open>debug_beep\<close> is set.\<close>

definition reassemble :: "'a audio \<Rightarrow> cut list \<Rightarrow> bool \<Rightarrow> int \<Rightarrow> py_error + 'a audio" where
  "reassemble original_audio cuts debug_beep crossfade_ms =
     (if debug_beep then Inr (beep_loop original_audio cuts)
      else cut_loop original_audio crossfade_ms [] 0 cuts)"

subsection \<open>process\_audio\_pydub\<close>

text \<open>An exported file: its path, the audio written and the format asked for.\<close>

datatype 'a export = Export string "'a audio" string

definition out_format :: "string \<Rightarrow> string" where
  "out_format output_file =
     (if endswith (lower output_file) ''.flac'' then ''flac''
      else if endswith (lower output_file) ''.wav'' then ''wav''
      else ''mp3'')"

text \<open>
  \<open>original_audio\<close> is the buffer \<open>AudioSegment.from_file(input_file)\<close> loaded. The result
  is the export made, or the exception raised before any export.
\<close>

definition process_audio_pydub ::
  "'a audio \<Rightarrow> string \<Rightarrow> (int \<times> int \<times> 'l) list \<Rightarrow> bool \<Rightarrow> int \<Rightarrow> int \<Rightarrow> int
     \<Rightarrow> py_error + 'a export" where
  "process_audio_pydub original_audio output_file segments_to_remove debug_beep padding_ms
       start_offset_ms crossfade_ms =
     (let duration_ms = len original_audio
      in if segments_to_remove = [] then Inr (Export output_file original_audio ''mp3'')
         else (case reassemble original_audio
                      (merged_cuts duration_ms start_offset_ms padding_ms segments_to_remove)
                      debug_beep crossfade_ms of
                 Inl e \<Rightarrow> Inl e
               | Inr processed_audio \<Rightarrow>
                   Inr (Export output_file processed_audio (out_format output_file))))"

section \<open>filler\_remover16: removing the words the user selected\<close>

definition MOCK_TRANSCRIPT_DATA :: "timed_word list" where
  "MOCK_TRANSCRIPT_DATA =
     [\<lparr>word = ''Hello,'', start_s = 0.10, end_s = 0.50\<rparr>,
      \<lparr>word = ''um,'', start_s = 0.55, end_s = 0.80\<rparr>,
      \<lparr>word = ''this'', start_s = 0.90, end_s = 1.20\<rparr>,
      \<lparr>word = ''is'', start_s = 1.25, end_s = 1.40\<rparr>,
      \<lparr>word = ''a'', start_s = 1.45, end_s = 1.50\<rparr>,
      \<lparr>word = ''test'', start_s = 1.55, end_s = 1.90\<rparr>,
      \<lparr>word = ''of'', start_s = 1.95, end_s = 2.10\<rparr>,
      \<lparr>word = ''the'', start_s = 2.15, end_s = 2.30\<rparr>,
      \<lparr>word = ''filler'', start_s = 2.35, end_s = 2.70\<rparr>,
      \<lparr>word = ''remover,'', start_s = 2.75, end_s = 3.20\<rparr>,
      \<lparr>word = ''ah,'', start_s = 3.30, end_s = 3.60\<rparr>,
      \<lparr>word = ''and'', start_s = 3.65, end_s = 3.80\<rparr>,
      \<lparr>word = ''you'', start_s = 3.85, end_s = 4.00\<rparr>,
      \<lparr>word = ''can'', start_s = 4.05, end_s = 4.20\<rparr>,
      \<lparr>word = ''select'', start_s = 4.25, end_s = 4.60\<rparr>,
      \<lparr>word = ''words'', start_s = 4.65, end_s = 4.90\<rparr>,
      \<lparr>word = ''to'', start_s = 4.95, end_s = 5.05\<rparr>,
      \<lparr>word = ''remove,'', start_s = 5.10, end_s = 5.50\<rparr>,
      \<lparr>word = ''uh,'', start_s = 5.55, end_s = 5.80\<rparr>,
      \<lparr>word = ''manually.'', start_s = 5.85, end_s = 6.50\<rparr>]"

subsection \<open>generate\_blank\_output\_path\<close>

text \<open>\<open>os.path.basename\<close> and \<open>os.path.splitext\<close> for POSIX paths.\<close>

definition basename :: "string \<Rightarrow> string" where
  "basename p = rev (takeWhile (\<lambda>c. c \<noteq> CHR ''/'') (rev p))"

definition splitext :: "string \<Rightarrow> string \<times> string" where
  "splitext p =
     (let name = dropWhile (\<lambda>c. c = CHR ''.'') (basename p);
          ext = (if CHR ''.'' \<in> set name
                 then CHR ''.'' # rev (takeWhile (\<lambda>c. c \<noteq> CHR ''.'') (rev name))
                 else [])
      in (take (length p - length ext) p, ext))"

definition generate_blank_output_path :: "string \<Rightarrow> string \<Rightarrow> string" where
  "generate_blank_output_path input_path suffix =
     (let (base, ext) = splitext input_path;
          clean_base = basename base
      in clean_base @ suffix @ ext)"

subsection \<open>The selected indices (process\_edited\_audio, lines 84--88)\<close>

text \<open>
  What \<open>json.loads\<close> returns: \<open>None\<close>, a bool, an int, a float (which may be infinite or
  not a number), a str, a list or a dict (its keys in order).
\<close>

datatype py_float = Finite real | PosInf | NegInf | NaN

datatype json =
    JNull
  | JBool bool
  | JInt int
  | JFloat py_float
  | JString string
  | JArray "json list"
  | JObject "(string \<times> json) list"

text \<open>
  \<open>int(s)\<close> for a string: white space around, an optional sign, then decimal digits,
  which single underscores may separate.
\<close>

definition digit_value :: "char \<Rightarrow> nat" where
  "digit_value c = length (takeWhile (\<lambda>d. d \<noteq> c) ascii_digits)"

fun parse_digits :: "nat \<Rightarrow> string \<Rightarrow> nat option" where
  "parse_digits acc [] = Some acc"
| "parse_digits acc [c] = (if isdigit c then Some (10 * acc + digit_value c) else None)"
| "parse_digits acc (c # d # cs) =
     (if isdigit c then parse_digits (10 * acc + digit_value c) (d # cs)
      else if c = CHR ''_'' \<and> isdigit d then parse_digits acc (d # cs)
      else None)"

definition int_of_str :: "string \<Rightarrow> int option" where
  "int_of_str s =
     (let t = strip s;
          negative = (t \<noteq> [] \<and> hd t = CHR ''-'');
          body = (if t \<noteq> [] \<and> (hd t = CHR ''-'' \<or> hd t = CHR ''+'') then tl t else t)
      in if body = [] \<or> \<not> isdigit (hd body) then None
         else map_option (\<lambda>n. if negative then - int n else int n) (parse_digits 0 body))"

text \<open>\<open>int(i)\<close> for a decoded value.\<close>

fun int_of_json :: "json \<Rightarrow> py_error + int" where
  "int_of_json JNull = Inl TypeError"
| "int_of_json (JBool b) = Inr (if b then 1 else 0)"
| "int_of_json (JInt n) = Inr n"
| "int_of_json (JFloat (Finite x)) = Inr (py_int x)"
| "int_of_json (JFloat PosInf) = Inl OverflowError"
| "int_of_json (JFloat NegInf) = Inl OverflowError"
| "int_of_json (JFloat NaN) = Inl ValueError"
| "int_of_json (JString s) = (case int_of_str s of None \<Rightarrow> Inl ValueError | Some n \<Rightarrow> Inr n)"
| "int_of_json (JArray xs) = Inl TypeError"
| "int_of_json (JObject kvs) = Inl TypeError"

text \<open>Iterating a decoded value: a list's items, a dict's keys, a str's characters.\<close>

fun iterate :: "json \<Rightarrow> py_error + json list" where
  "iterate (JArray xs) = Inr xs"
| "iterate (JObject kvs) = Inr (map (\<lambda>kv. JString (fst kv)) kvs)"
| "iterate (JString s) = Inr (map (\<lambda>c. JString [c]) s)"
| "iterate v = Inl TypeError"

text \<open>The conversions in order; the first one that raises ends the comprehension.\<close>

fun ints_of :: "json list \<Rightarrow> py_error + int list" where
  "ints_of [] = Inr []"
| "ints_of (v # vs) =
     (case int_of_json v of
        Inl e \<Rightarrow> Inl e
      | Inr n \<Rightarrow> (case ints_of vs of Inl e \<Rightarrow> Inl e | Inr ns \<Rightarrow> Inr (n # ns)))"

text \<open>\<open>{int(i) for i in json.loads(selected_indices_json)}\<close>, given the decoded value.\<close>

definition selected_indices_of :: "json \<Rightarrow> py_error + int set" where
  "selected_indices_of v =
     (case iterate v of
        Inl e \<Rightarrow> Inl e
      | Inr items \<Rightarrow> (case ints_of items of Inl e \<Rightarrow> Inl e | Inr ns \<Rightarrow> Inr (set ns)))"

subsection \<open>The splice (process\_edited\_audio, lines 100--130)\<close>

text \<open>One round of the loop over \<open>enumerate(transcript)\<close>.\<close>

fun edit_step :: "'a audio \<Rightarrow> int set \<Rightarrow> 'a audio \<times> int \<Rightarrow> nat \<times> timed_word \<Rightarrow> 'a audio \<times> int" where
  "edit_step audio selected_indices (new_audio, last_kept_end_ms) (i, item) =
     (if int i \<in> selected_indices then (new_audio, last_kept_end_ms)
      else (let silent_gap = slice audio last_kept_end_ms (start_ms item);
                word_segment = slice audio (start_ms item) (end_ms item)
            in ((new_audio @ silent_gap) @ word_segment, end_ms item)))"

definition edited_audio :: "timed_word list \<Rightarrow> 'a audio \<Rightarrow> int set \<Rightarrow> 'a audio" where
  "edited_audio transcript audio selected_indices =
     (let (new_audio, last_kept_end_ms) =
            foldl (edit_step audio selected_indices) ([], 0) (enumerate 0 transcript)
      in if last_kept_end_ms < len audio then new_audio @ slice_from audio last_kept_end_ms
         else new_audio)"

subsection \<open>The log and the result (process\_edited\_audio, lines 133--145)\<close>

text \<open>\<open>transcript[i]\<close>: a negative index counts from the end, one out of range raises.\<close>

definition py_nth :: "'a list \<Rightarrow> int \<Rightarrow> py_error + 'a" where
  "py_nth xs i =
     (let j = (if i < 0 then len xs + i else i)
      in if 0 \<le> j \<and> j < len xs then Inr (xs ! nat j) else Inl IndexError)"

fun removed_words_of :: "timed_word list \<Rightarrow> int list \<Rightarrow> py_error + string list" where
  "removed_words_of transcript [] = Inr []"
| "removed_words_of transcript (i # is) =
     (case py_nth transcript i of
        Inl e \<Rightarrow> Inl e
      | Inr item \<Rightarrow>
          (case removed_words_of transcript is of
             Inl e \<Rightarrow> Inl e
           | Inr ws \<Rightarrow> Inr (word item # ws)))"

fun join :: "string \<Rightarrow> string list \<Rightarrow> string" where
  "join sep [] = []"
| "join sep [w] = w"
| "join sep (w # ws) = w @ sep @ join sep ws"

definition log_message :: "string list \<Rightarrow> string" where
  "log_message removed_words =
     (if removed_words = []
      then ''No words were selected for removal. Original audio logic applied (though no changes were made).''
      else ''Successfully removed the following segments (words selected by user): ''
             @ join '', '' removed_words)"

text \<open>
  \<open>process_edited_audio\<close>, given \<open>decoded\<close>, the value \<open>json.loads\<close> returns for
  \<open>selected_indices_json\<close> (\<open>None\<close> when it raises \<open>JSONDecodeError\<close>), and \<open>loaded\<close>, what
  \<open>AudioSegment.from_file\<close> gives for the path (the buffer, or the text of its exception).
  The result is the returned pair or the exception that escapes, together with the file
  exported, if one was. The set of selected indices is walked in ascending order for the
  log (Python leaves the order of a set open).
\<close>

definition process_edited_audio ::
  "string option \<Rightarrow> json option \<Rightarrow> string + 'a audio
     \<Rightarrow> (py_error + string option \<times> string) \<times> 'a export option" where
  "process_edited_audio original_audio_path decoded loaded =
     (case original_audio_path of
        None \<Rightarrow> (Inr (None, ''Error: No original audio file found to process.''), None)
      | Some path \<Rightarrow>
     (case decoded of
        None \<Rightarrow> (Inr (None, ''Error: Could not parse selected words.''), None)
      | Some v \<Rightarrow>
     (case selected_indices_of v of
        Inl e \<Rightarrow> (Inl e, None)
      | Inr selected_indices \<Rightarrow>
     (case loaded of
        Inl e \<Rightarrow> (Inr (None, ''Error loading audio file: '' @ e), None)
      | Inr audio \<Rightarrow>
          (let new_audio = edited_audio MOCK_TRANSCRIPT_DATA audio selected_indices;
               output_path = generate_blank_output_path path ''_edited'';
               exported = Some (Export output_path new_audio ''mp3'')
           in case removed_words_of MOCK_TRANSCRIPT_DATA
                     (sorted_list_of_set selected_indices) of
                Inl e \<Rightarrow> (Inl e, exported)
              | Inr removed_words \<Rightarrow>
                  (Inr (Some output_path, log_message removed_words), exported))))))"

section \<open>Properties stated by the specification\<close>

text \<open>An interval inside the timeline: \<open>0 \<le> start \<le> end \<le> total_duration_ms\<close>.\<close>

definition in_bounds :: "int \<Rightarrow> cut \<Rightarrow> bool" where
  "in_bounds D c = (0 \<le> fst c \<and> fst c \<le> snd c \<and> snd c \<le> D)"





text \<open>
  A cut list in chronological order from \<open>last_pos\<close> on and inside a timeline of
  \<open>D\<close> milliseconds.
\<close>

fun chain :: "int \<Rightarrow> int \<Rightarrow> cut list \<Rightarrow> bool" where
  "chain D l [] = (l \<le> D)"
| "chain D l ((s, e) # cs) = (l \<le> s \<and> s \<le> e \<and> chain D e cs)"

section \<open>Lemmas on the character tables\<close>

lemmas char_defs = isalnum_def isdigit_def isupper_def islower_def isspace_def lower_char_def
  ascii_digits_def ascii_uppercase_def ascii_lowercase_def ascii_whitespace_def

section \<open>The merged cuts\<close>

lemma merge_step_Nil:
  "merge_step D off pad [] se = [(max 0 (fst se - off), min D (snd se + pad))]"
  by (simp add: merge_step_def)

lemma merge_step_snoc:
  "merge_step D off pad (ms @ [m]) se =
     (if max 0 (fst se - off) \<le> snd m
      then ms @ [(fst m, max (snd m) (min D (snd se + pad)))]
      else ms @ [m, (max 0 (fst se - off), min D (snd se + pad))])"
  by (simp add: merge_step_def Let_def)

lemma foldl_invariant:
  assumes "P acc" and "\<And>a x. x \<in> set xs \<Longrightarrow> P a \<Longrightarrow> P (f a x)"
  shows "P (foldl f acc xs)"
  using assms by (induction xs arbitrary: acc) auto

lemma successively_nth:
  "successively P xs \<longleftrightarrow> (\<forall>i. Suc i < length xs \<longrightarrow> P (xs ! i) (xs ! Suc i))"
proof (induction P xs rule: successively.induct)
  case (3 P x y xs)
  show ?case
  proof
    assume a: "successively P (x # y # xs)"
    show "\<forall>i. Suc i < length (x # y # xs) \<longrightarrow> P ((x # y # xs) ! i) ((x # y # xs) ! Suc i)"
    proof (intro allI impI)
      fix i assume "Suc i < length (x # y # xs)"
      with a 3 show "P ((x # y # xs) ! i) ((x # y # xs) ! Suc i)"
        by (cases i) auto
    qed
  next
    assume a: "\<forall>i. Suc i < length (x # y # xs) \<longrightarrow> P ((x # y # xs) ! i) ((x # y # xs) ! Suc i)"
    have "P x y" using a [rule_format, of 0] by simp
    moreover have "\<forall>i. Suc i < length (y # xs) \<longrightarrow> P ((y # xs) ! i) ((y # xs) ! Suc i)"
    proof (intro allI impI)
      fix i assume "Suc i < length (y # xs)"
      then show "P ((y # xs) ! i) ((y # xs) ! Suc i)"
        using a [rule_format, of "Suc i"] by simp
    qed
    ultimately show "successively P (x # y # xs)" using 3 by simp
  qed
qed simp_all

lemma merge_step_successively:
  assumes "successively (\<lambda>a b. snd a < fst b) merged"
  shows "successively (\<lambda>a b. snd a < fst b) (merge_step D off pad merged se)"
proof (cases merged rule: rev_cases)
  case Nil
  then show ?thesis by (simp add: merge_step_Nil)
next
  case (snoc ms m)
  with assms show ?thesis
    by (auto simp: merge_step_snoc successively_append_iff)
qed

lemma merged_cuts_successively:
  "successively (\<lambda>a b. snd a < fst b) (merged_cuts D off pad segs)"
  unfolding merged_cuts_def
  by (rule foldl_invariant) (simp_all add: merge_step_successively)

text \<open>
  Claim C3 (merge disjointness). For every interval list, every total duration and every
  lookback and padding, each pair of adjacent intervals \<open>i\<close>, \<open>i + 1\<close> of the merged cuts
  satisfies \<open>end_ms[i] < start_ms[i+1]\<close>: no two merged cuts overlap or abut.
\<close>
theorem merged_cuts_disjoint:
  "\<forall>i. Suc i < length (merged_cuts D off pad X) \<longrightarrow>
     snd (merged_cuts D off pad X ! i) < fst (merged_cuts D off pad X ! Suc i)"
  using merged_cuts_successively [of D off pad X] by (simp add: successively_nth)

theorem merged_cuts_disjoint_witness:
  "Suc 0 < length (merged_cuts 10000 0 0 [(1000, 1200, ''um''), (1150, 1400, ''uh''), (5000, 5100, ''er'')])
   \<and> snd (merged_cuts 10000 0 0 [(1000, 1200, ''um''), (1150, 1400, ''uh''), (5000, 5100, ''er'')] ! 0)
     < fst (merged_cuts 10000 0 0 [(1000, 1200, ''um''), (1150, 1400, ''uh''), (5000, 5100, ''er'')] ! Suc 0)"
proof -
  have h: "Suc 0 < length (merged_cuts 10000 0 0 [(1000, 1200, ''um''), (1150, 1400, ''uh''), (5000, 5100, ''er'')])"
    by (simp add: merged_cuts_def segments_time_def merge_step_def)
  from merged_cuts_disjoint [rule_format, OF h] h show ?thesis by (intro conjI)
qed

lemma merge_step_within:
  assumes "list_all (in_bounds D) merged" and "in_bounds D se" and "0 \<le> off" and "0 \<le> pad"
  shows "list_all (in_bounds D) (merge_step D off pad merged se)"
proof (cases merged rule: rev_cases)
  case Nil
  with assms show ?thesis by (auto simp: merge_step_Nil in_bounds_def)
next
  case (snoc ms m)
  with assms show ?thesis
    by (auto simp: merge_step_snoc in_bounds_def)
qed

lemma set_segments_time: "set (segments_time segs) = (\<lambda>(s, e, _). (s, e)) ` set segs"
  by (simp add: segments_time_def)

lemma merged_cuts_within:
  assumes "0 \<le> off" and "0 \<le> pad" and "\<forall>x \<in> set segs. in_bounds D (fst x, fst (snd x))"
  shows "list_all (in_bounds D) (merged_cuts D off pad segs)"
  unfolding merged_cuts_def
proof (rule foldl_invariant)
  show "list_all (in_bounds D) []" by simp
next
  fix a x
  assume "x \<in> set (segments_time segs)" and "list_all (in_bounds D) a"
  moreover from this assms(3) have "in_bounds D x"
    by (auto simp: set_segments_time)
  ultimately show "list_all (in_bounds D) (merge_step D off pad a x)"
    using assms(1,2) by (simp add: merge_step_within)
qed

lemma starts_increasing:
  assumes "successively (\<lambda>a b. snd a < fst b) M" and "list_all (in_bounds D) M"
  shows "sorted_wrt (<) (map fst M)"
proof -
  have "successively (\<lambda>a b. fst a < fst b) M"
    using assms by (induction M) (auto simp: successively_Cons in_bounds_def)
  then have "successively (<) (map fst M)"
    by (simp add: successively_map)
  then show ?thesis
    by (simp add: successively_conv_sorted_wrt)
qed

lemma merge_step_clean:
  assumes "0 \<le> fst m" and "snd m \<le> D" and "acc = [] \<or> snd (last acc) < fst m"
  shows "merge_step D 0 0 acc m = acc @ [m]"
proof (cases acc rule: rev_cases)
  case Nil
  with assms show ?thesis by (simp add: merge_step_Nil)
next
  case (snoc ms l)
  with assms show ?thesis by (simp add: merge_step_snoc)
qed

lemma merge_loop_clean:
  assumes "list_all (in_bounds D) M" and "successively (\<lambda>a b. snd a < fst b) M"
    and "acc = [] \<or> M = [] \<or> snd (last acc) < fst (hd M)"
  shows "foldl (merge_step D 0 0) acc M = acc @ M"
  using assms
proof (induction M arbitrary: acc)
  case Nil
  then show ?case by simp
next
  case (Cons m M)
  from Cons.prems have step: "merge_step D 0 0 acc m = acc @ [m]"
    by (intro merge_step_clean) (auto simp: in_bounds_def)
  from Cons.prems have "foldl (merge_step D 0 0) (acc @ [m]) M = (acc @ [m]) @ M"
    by (intro Cons.IH) (auto simp: successively_Cons)
  with step show ?case by simp
qed

lemma sorted_by_starts:
  assumes "sorted_wrt (<) (map fst (M :: cut list))"
  shows "sort M = M"
proof -
  from assms have "sorted_wrt (\<lambda>a b. fst a < fst b) M"
    by (simp add: sorted_wrt_map)
  then have "sorted_wrt (\<le>) M"
    by (rule sorted_wrt_mono_rel [rotated]) (auto simp: less_eq_prod_def)
  then show ?thesis
    by (simp add: sorted_sort_id)
qed

lemma segments_time_as_segments: "segments_time (as_segments M) = sort M"
proof -
  have "map (\<lambda>(s, e, _). (s, e)) (map (\<lambda>(s, e). (s, e, ())) M) = M"
    by (induction M) auto
  then show ?thesis
    by (simp add: segments_time_def as_segments_def)
qed

lemma in_bounds_segments:
  assumes "\<forall>(s, e, l) \<in> set X. 0 \<le> s \<and> s \<le> e \<and> e \<le> D"
  shows "\<forall>x \<in> set X. in_bounds D (fst x, fst (snd x))"
  using assms by (auto simp: in_bounds_def)

text \<open>
  Claim C9 (bounds of the merged cuts). With lookback and padding at least 0 and every raw
  interval satisfying \<open>0 \<le> s \<le> e \<le> D\<close>, every merged cut \<open>(s', e')\<close> satisfies
  \<open>0 \<le> s' \<le> e' \<le> D\<close>, and the start times of the merged cuts are strictly increasing.
\<close>
theorem merged_cuts_bounds:
  assumes "0 \<le> start_offset_ms" and "0 \<le> padding_ms"
    and "\<forall>(s, e, l) \<in> set X. 0 \<le> s \<and> s \<le> e \<and> e \<le> D"
  shows "(\<forall>(s', e') \<in> set (merged_cuts D start_offset_ms padding_ms X).
            0 \<le> s' \<and> s' \<le> e' \<and> e' \<le> D)
       \<and> sorted_wrt (<) (map fst (merged_cuts D start_offset_ms padding_ms X))"
proof -
  have b: "list_all (in_bounds D) (merged_cuts D start_offset_ms padding_ms X)"
    using assms by (intro merged_cuts_within in_bounds_segments)
  then have "\<forall>(s', e') \<in> set (merged_cuts D start_offset_ms padding_ms X).
               0 \<le> s' \<and> s' \<le> e' \<and> e' \<le> D"
    by (auto simp: list_all_iff in_bounds_def)
  moreover have "sorted_wrt (<) (map fst (merged_cuts D start_offset_ms padding_ms X))"
    using merged_cuts_successively b by (rule starts_increasing)
  ultimately show ?thesis by simp
qed

theorem merged_cuts_bounds_witness:
  "list_all (\<lambda>(s', e'). 0 \<le> s' \<and> s' \<le> e' \<and> e' \<le> 10000)
     (merged_cuts 10000 100 50 [(1000, 1200, ''um''), (1150, 1400, ''uh''), (40, 90, ''er'')])
   \<and> sorted_wrt (<) (map fst
     (merged_cuts 10000 100 50 [(1000, 1200, ''um''), (1150, 1400, ''uh''), (40, 90, ''er'')]))"
proof -
  have h: "\<forall>(s, e, l) \<in> set [(1000, 1200, ''um''), (1150, 1400, ''uh''), (40, 90, ''er'')].
             (0::int) \<le> s \<and> s \<le> e \<and> e \<le> 10000"
    by simp
  have "(0::int) \<le> 100" and "(0::int) \<le> 50" by simp_all
  from merged_cuts_bounds [OF this h] show ?thesis
    by (auto simp: list_all_iff)
qed

text \<open>
  Claim C4 (merge idempotence), as amended. The merge step widens every interval by the
  lookback and the padding, so a second application with the same settings widens the merged
  cuts again (see the counterexample below). What holds: for raw intervals inside the
  timeline and lookback and padding at least 0, merging the merged cuts once more with
  lookback 0 and padding 0 returns them unchanged; in particular the merge step is
  idempotent when lookback and padding are 0.
\<close>
theorem merge_again_without_widening:
  assumes "0 \<le> start_offset_ms" and "0 \<le> padding_ms"
    and "\<forall>(s, e, l) \<in> set X. 0 \<le> s \<and> s \<le> e \<and> e \<le> D"
  shows "merged_cuts D 0 0 (as_segments (merged_cuts D start_offset_ms padding_ms X))
       = merged_cuts D start_offset_ms padding_ms X"
proof -
  let ?M = "merged_cuts D start_offset_ms padding_ms X"
  have b: "list_all (in_bounds D) ?M"
    using assms by (intro merged_cuts_within in_bounds_segments)
  have s: "successively (\<lambda>a b. snd a < fst b) ?M"
    by (rule merged_cuts_successively)
  have "sort ?M = ?M"
    using s b by (intro sorted_by_starts starts_increasing)
  then have "merged_cuts D 0 0 (as_segments ?M) = foldl (merge_step D 0 0) [] ?M"
    by (simp add: merged_cuts_def [of D 0 0] segments_time_as_segments)
  also have "\<dots> = [] @ ?M"
    using b s by (intro merge_loop_clean) simp_all
  finally show ?thesis by simp
qed

theorem merge_again_without_widening_witness:
  "merged_cuts 10000 0 0 (as_segments (merged_cuts 10000 100 50 [(1000, 1200, ''um''), (1150, 1400, ''uh'')]))
   = merged_cuts 10000 100 50 [(1000, 1200, ''um''), (1150, 1400, ''uh'')]"
proof -
  have h: "\<forall>(s, e, l) \<in> set [(1000, 1200, ''um''), (1150, 1400, ''uh'')].
             (0::int) \<le> s \<and> s \<le> e \<and> e \<le> 10000"
    by simp
  have "(0::int) \<le> 100" and "(0::int) \<le> 50" by simp_all
  from this h show ?thesis by (rule merge_again_without_widening)
qed

text \<open>
  The counterexample to claim C4 as stated: one interval \<open>(1000, 1200)\<close>, a 10000 ms
  recording, lookback 100 and padding 50. The first merge gives \<open>(900, 1250)\<close>, the second
  \<open>(800, 1300)\<close>.
\<close>
theorem merge_idempotence_counterexample:
  "merged_cuts 10000 100 50 (as_segments (merged_cuts 10000 100 50 [(1000, 1200, ''um'')]))
   \<noteq> merged_cuts 10000 100 50 [(1000, 1200, ''um'')]"
  by (simp add: merged_cuts_def segments_time_def merge_step_def as_segments_def)

section \<open>Reassembly\<close>

lemma slice_nonneg:
  assumes "0 \<le> i" and "0 \<le> j"
  shows "slice a i j = drop (nat i) (take (nat j) a)"
proof -
  have i: "py_index a (parse_position a (min i (len a))) = min (nat i) (length a)"
    using assms by (auto simp: py_index_def parse_position_def len_def min_def)
  have j: "py_index a (parse_position a (min j (len a))) = min (nat j) (length a)"
    using assms by (auto simp: py_index_def parse_position_def len_def min_def)
  have "slice a i j = drop (min (nat i) (length a)) (take (min (nat j) (length a)) a)"
    by (simp only: slice_def py_slice_def i j)
  also have "\<dots> = drop (nat i) (take (nat j) a)"
    by (cases "nat i \<le> length a"; cases "nat j \<le> length a") (simp_all add: min_def)
  finally show ?thesis .
qed

lemma slice_to_take: "slice_to a p = take (py_index a (parse_position a (min p (len a)))) a"
  by (simp add: slice_to_def slice_def py_slice_def py_index_def parse_position_def len_def)

lemma slice_from_drop: "slice_from a p = drop (py_index a (parse_position a (min p (len a)))) a"
  by (simp add: slice_from_def slice_def py_slice_def py_index_def parse_position_def len_def)

lemma slice_from_nonneg: "0 \<le> i \<Longrightarrow> slice_from a i = drop (nat i) a"
  by (simp add: slice_from_def slice_nonneg len_def)

lemma slice_to_from: "slice_to a p @ slice_from a p = a"
  by (simp add: slice_to_take slice_from_drop)

lemma length_overlay: "length (overlay seg1 seg2 position) = length seg1"
proof -
  have "length (slice_to seg1 position) + length (slice_from seg1 position) = length seg1"
    using slice_to_from [of seg1 position] by (metis length_append)
  then show ?thesis
    by (simp add: overlay_def Let_def min_def)
qed

lemma length_beep_loop: "length (beep_loop processed_audio cuts) = length processed_audio"
  by (induction processed_audio cuts rule: beep_loop.induct) (simp_all add: Let_def length_overlay)

lemma add_span_plain: "crossfade_ms \<le> 0 \<Longrightarrow> add_span crossfade_ms p k = Inr (p @ k)"
  by (simp add: add_span_def)

lemma cut_loop_plain:
  "crossfade_ms \<le> 0 \<Longrightarrow> \<exists>out. cut_loop a crossfade_ms p last_pos cuts = Inr out"
  by (induction a crossfade_ms p last_pos cuts rule: cut_loop.induct)
     (simp_all add: add_span_plain)

lemma chain_le: "chain D l cuts \<Longrightarrow> l \<le> D"
  by (induction D l cuts rule: chain.induct) auto

lemma cut_loop_length:
  assumes "0 \<le> last_pos" and "chain (len a) last_pos cuts"
  shows "\<exists>out. cut_loop a 0 p last_pos cuts = Inr out
           \<and> len out = len p + (len a - last_pos) - sum_list (map (\<lambda>(s, e). e - s) cuts)"
  using assms
proof (induction cuts arbitrary: p last_pos)
  case Nil
  then show ?case
    by (auto simp: add_span_def slice_from_nonneg len_def)
next
  case (Cons c cuts)
  obtain s e where c: "c = (s, e)" by (cases c)
  from Cons.prems c have le: "last_pos \<le> s" "s \<le> e" and ch: "chain (len a) e cuts"
    by simp_all
  have e_le: "e \<le> len a" using ch by (rule chain_le)
  have e0: "0 \<le> e" using Cons.prems(1) le by simp
  show ?case
  proof (cases "last_pos < s")
    case True
    let ?p = "p @ slice a last_pos s"
    have lp: "len ?p = len p + (s - last_pos)"
      using Cons.prems(1) le e_le True by (simp add: slice_nonneg len_def)
    from Cons.IH [OF e0 ch, of ?p] obtain out where
      "cut_loop a 0 ?p e cuts = Inr out"
      "len out = len ?p + (len a - e) - sum_list (map (\<lambda>(s, e). e - s) cuts)"
      by blast
    with True c lp show ?thesis
      by (simp add: add_span_def)
  next
    case False
    with le have eq: "last_pos = s" by simp
    from Cons.IH [OF e0 ch, of p] obtain out where
      "cut_loop a 0 p e cuts = Inr out"
      "len out = len p + (len a - e) - sum_list (map (\<lambda>(s, e). e - s) cuts)"
      by blast
    with False c eq show ?thesis
      by simp
  qed
qed

lemma chain_of_sorted:
  assumes "\<forall>(s, e) \<in> set cuts. 0 \<le> s \<and> s \<le> e \<and> e \<le> D"
    and "sorted_wrt (\<lambda>a b. snd a \<le> fst b) cuts"
    and "l \<le> D" and "\<forall>(s, e) \<in> set cuts. l \<le> s"
  shows "chain D l cuts"
  using assms
proof (induction cuts arbitrary: l)
  case Nil
  then show ?case by simp
next
  case (Cons c cuts)
  obtain s e where c: "c = (s, e)" by (cases c)
  have "chain D e cuts"
  proof (rule Cons.IH)
    show "\<forall>(s, e) \<in> set cuts. 0 \<le> s \<and> s \<le> e \<and> e \<le> D" using Cons.prems(1) by simp
    show "sorted_wrt (\<lambda>a b. snd a \<le> fst b) cuts" using Cons.prems(2) by simp
    show "e \<le> D" using Cons.prems(1) c by simp
    show "\<forall>(s, e') \<in> set cuts. e \<le> s" using Cons.prems(2) c by auto
  qed
  with Cons.prems c show ?case by simp
qed

text \<open>
  Claim C2 (CUT-mode duration). For a cut list in chronological order and pairwise disjoint
  (each cut ends no later than every later cut starts), with \<open>0 \<le> s \<le> e \<le>\<close> the
  length of the audio for each cut, and \<open>crossfade_ms = 0\<close>, CUT mode returns a buffer whose
  length is the length of the audio minus the sum of the cut durations.
\<close>
theorem cut_mode_duration:
  assumes "\<forall>(s, e) \<in> set cuts. 0 \<le> s \<and> s \<le> e \<and> e \<le> len audio"
    and "sorted_wrt (\<lambda>a b. snd a \<le> fst b) cuts"
  shows "\<exists>out. reassemble audio cuts False 0 = Inr out
           \<and> len out = len audio - sum_list (map (\<lambda>(s, e). e - s) cuts)"
proof -
  have "chain (len audio) 0 cuts"
    using assms by (intro chain_of_sorted) (auto simp: len_def)
  from cut_loop_length [OF _ this, of "[]"] show ?thesis
    by (simp add: reassemble_def len_def)
qed

theorem cut_mode_duration_witness:
  "\<exists>out. reassemble (map Orig ''abcdefghij'') [(2, 4), (6, 9)] False 0 = Inr out
     \<and> len out = len (map Orig ''abcdefghij'') - sum_list (map (\<lambda>(s, e). e - s) [(2, 4), (6, 9)])"
proof (rule cut_mode_duration)
  show "\<forall>(s, e) \<in> set [(2, 4), (6, 9)]. 0 \<le> s \<and> s \<le> e \<and> e \<le> len (map Orig ''abcdefghij'')"
    by (simp add: len_def)
  show "sorted_wrt (\<lambda>a b. snd a \<le> fst b) [(2::int, 4::int), (6, 9)]"
    by simp
qed

text \<open>
  Claim C7 (BEEP-mode duration invariance). For every audio buffer and every cut list, BEEP
  mode returns a buffer as long as the input audio.
\<close>
theorem beep_mode_duration:
  "\<exists>out. reassemble audio cuts True crossfade_ms = Inr out \<and> len out = len audio"
  by (simp add: reassemble_def len_def length_beep_loop)

theorem beep_mode_duration_witness:
  "\<exists>out. reassemble (map Orig ''abcdefghij'') [(2, 4), (3, 3), (6, 90)] True 10 = Inr out
     \<and> len out = len (map Orig ''abcdefghij'')"
  by (rule beep_mode_duration)

section \<open>Export and detection\<close>

lemma reassemble_plain:
  "debug_beep \<or> crossfade_ms \<le> 0 \<Longrightarrow> \<exists>out. reassemble a cuts debug_beep crossfade_ms = Inr out"
  using cut_loop_plain [of crossfade_ms a "[]" 0 cuts] by (auto simp: reassemble_def)

text \<open>
  Claim C10 (export format). With no segments to remove, \<open>process_audio_pydub\<close> exports the
  original audio as MP3 whatever the extension of the output file. With segments to remove,
  every export it makes goes to the output file in the format chosen by the \<open>.flac\<close> or
  \<open>.wav\<close> extension (compared in lower case), MP3 otherwise; and it does export in BEEP
  mode and whenever the crossfade is not positive (a positive crossfade longer than a kept
  span makes the codec raise before the export).
\<close>
theorem export_format:
  "process_audio_pydub audio output_file [] debug_beep padding_ms start_offset_ms crossfade_ms
     = Inr (Export output_file audio ''mp3'')
   \<and> (segments_to_remove \<noteq> [] \<longrightarrow>
        (\<forall>p a f. process_audio_pydub audio output_file segments_to_remove debug_beep padding_ms
                    start_offset_ms crossfade_ms = Inr (Export p a f)
           \<longrightarrow> p = output_file
               \<and> f = (if endswith (lower output_file) ''.flac'' then ''flac''
                      else if endswith (lower output_file) ''.wav'' then ''wav'' else ''mp3'')))
   \<and> (segments_to_remove \<noteq> [] \<and> (debug_beep \<or> crossfade_ms \<le> 0) \<longrightarrow>
        (\<exists>a. process_audio_pydub audio output_file segments_to_remove debug_beep padding_ms
                start_offset_ms crossfade_ms
              = Inr (Export output_file a
                  (if endswith (lower output_file) ''.flac'' then ''flac''
                   else if endswith (lower output_file) ''.wav'' then ''wav'' else ''mp3''))))"
proof (intro conjI impI allI)
  show "process_audio_pydub audio output_file [] debug_beep padding_ms start_offset_ms crossfade_ms
          = Inr (Export output_file audio ''mp3'')"
    by (simp add: process_audio_pydub_def)
next
  fix p a f
  assume "segments_to_remove \<noteq> []"
    and "process_audio_pydub audio output_file segments_to_remove debug_beep padding_ms
           start_offset_ms crossfade_ms = Inr (Export p a f)"
  then show "p = output_file"
    and "f = (if endswith (lower output_file) ''.flac'' then ''flac''
              else if endswith (lower output_file) ''.wav'' then ''wav'' else ''mp3'')"
    by (auto simp: process_audio_pydub_def out_format_def Let_def split: sum.splits)
next
  assume a: "segments_to_remove \<noteq> [] \<and> (debug_beep \<or> crossfade_ms \<le> 0)"
  then obtain out where
    "reassemble audio (merged_cuts (len audio) start_offset_ms padding_ms segments_to_remove)
       debug_beep crossfade_ms = Inr out"
    using reassemble_plain by blast
  with a show "\<exists>a. process_audio_pydub audio output_file segments_to_remove debug_beep padding_ms
                start_offset_ms crossfade_ms
              = Inr (Export output_file a
                  (if endswith (lower output_file) ''.flac'' then ''flac''
                   else if endswith (lower output_file) ''.wav'' then ''wav'' else ''mp3''))"
    by (simp add: process_audio_pydub_def out_format_def Let_def)
qed

theorem export_format_witness:
  "process_audio_pydub (map Orig ''abcdefghij'') ''clean.WAV'' ([] :: (int \<times> int \<times> string) list)
      False 50 100 10
     = Inr (Export ''clean.WAV'' (map Orig ''abcdefghij'') ''mp3'')
   \<and> (\<exists>a. process_audio_pydub (map Orig ''abcdefghij'') ''clean.WAV'' [(2, 4, ''um'')]
              False 50 100 0
            = Inr (Export ''clean.WAV'' a ''wav''))"
proof -
  note t = export_format [of "map Orig ''abcdefghij''" "''clean.WAV''" False 50 100 _
      "[(2, 4, ''um'')]"]
  have f: "(if endswith (lower ''clean.WAV'') ''.flac'' then ''flac''
            else if endswith (lower ''clean.WAV'') ''.wav'' then ''wav'' else ''mp3'') = ''wav''"
    by (simp add: endswith_def lower_def char_defs)
  have "process_audio_pydub (map Orig ''abcdefghij'') ''clean.WAV'' ([] :: (int \<times> int \<times> string) list)
      False 50 100 10
     = Inr (Export ''clean.WAV'' (map Orig ''abcdefghij'') ''mp3'')"
    using t [of 10] by (rule conjunct1)
  moreover have "\<exists>a. process_audio_pydub (map Orig ''abcdefghij'') ''clean.WAV'' [(2, 4, ''um'')]
              False 50 100 0
            = Inr (Export ''clean.WAV'' a ''wav'')"
    using t [of 0, THEN conjunct2, THEN conjunct2] unfolding f by simp
  ultimately show ?thesis by (rule conjI)
qed

lemma filler_hits_excluded:
  assumes "\<forall>w \<in> set ws. word w \<in> {''a'', ''and'', ''the''}"
  shows "filler_hits filler_list ws = []"
  using assms
proof (induction ws)
  case Nil
  then show ?case by simp
next
  case (Cons w ws)
  from Cons.prems have "word w = ''a'' \<or> word w = ''and'' \<or> word w = ''the''"
    by simp
  then have "filter isalnum (word w) \<in> EXCLUSIONS"
    by (auto simp: EXCLUSIONS_def char_defs)
  with Cons show ?case by simp
qed

text \<open>
  Claim C6 (exclusion safety). For every transcript whose words all have the text \<open>a\<close>,
  \<open>and\<close> or \<open>the\<close>, and every filler set, \<open>find_fillers\<close> returns the empty list.
\<close>
theorem find_fillers_exclusion_safety:
  assumes "\<forall>seg \<in> set segments. \<forall>w \<in> set (words seg). word w \<in> {''a'', ''and'', ''the''}"
  shows "find_fillers segments filler_list = []"
  using assms by (simp add: find_fillers_def filler_hits_excluded)

theorem find_fillers_exclusion_safety_witness:
  "find_fillers
     [\<lparr>words = [\<lparr>word = ''a'', start_s = 1.45, end_s = 1.50\<rparr>,
                \<lparr>word = ''and'', start_s = 3.65, end_s = 3.80\<rparr>]\<rparr>,
      \<lparr>words = [\<lparr>word = ''the'', start_s = 2.15, end_s = 2.30\<rparr>]\<rparr>]
     {''a'', ''and'', ''the'', ''um''} = []"
  by (rule find_fillers_exclusion_safety) simp

section \<open>Stutter detection\<close>














section \<open>The words the user selected\<close>

lemma chain_mono: "chain D l cuts \<Longrightarrow> l' \<le> l \<Longrightarrow> chain D l' cuts"
  by (cases cuts) auto

lemma take_then_slice:
  assumes "0 \<le> l" and "l \<le> s"
  shows "take (nat l) a @ slice a l s = take (nat s) a"
proof -
  have "take (nat l) (take (nat s) a) @ drop (nat l) (take (nat s) a) = take (nat s) a"
    by (rule append_take_drop_id)
  moreover have "take (nat l) (take (nat s) a) = take (nat l) a"
    using assms by (simp add: min_def)
  moreover have "slice a l s = drop (nat l) (take (nat s) a)"
    using assms by (intro slice_nonneg) simp_all
  ultimately show ?thesis by simp
qed

lemma edit_loop_keeps_all:
  assumes "0 \<le> l" and "chain D l (map (\<lambda>w. (start_ms w, end_ms w)) ws)"
  shows "\<exists>l'. 0 \<le> l' \<and>
           foldl (edit_step audio selected) (take (nat l) audio, l) (enumerate k ws)
             = (take (nat l') audio, l')"
  using assms
proof (induction ws arbitrary: l k)
  case Nil
  then show ?case by auto
next
  case (Cons w ws)
  from Cons.prems have le: "l \<le> start_ms w" "start_ms w \<le> end_ms w"
    and ch: "chain D (end_ms w) (map (\<lambda>w. (start_ms w, end_ms w)) ws)"
    by simp_all
  show ?case
  proof (cases "int k \<in> selected")
    case True
    from ch le have "chain D l (map (\<lambda>w. (start_ms w, end_ms w)) ws)"
      by (intro chain_mono [OF ch]) simp
    from Cons.IH [OF Cons.prems(1) this, of "Suc k"] True show ?thesis
      by simp
  next
    case False
    have e0: "0 \<le> end_ms w" using Cons.prems(1) le by simp
    have s0: "0 \<le> start_ms w" using Cons.prems(1) le by simp
    have "(take (nat l) audio @ slice audio l (start_ms w)) @ slice audio (start_ms w) (end_ms w)
            = take (nat (end_ms w)) audio"
      using Cons.prems(1) le s0 by (simp only: take_then_slice)
    with Cons.IH [OF e0 ch, of "Suc k"] False show ?thesis
      by (simp add: Let_def)
  qed
qed

lemma edited_audio_keeps_all:
  assumes "chain D 0 (map (\<lambda>w. (start_ms w, end_ms w)) transcript)"
  shows "edited_audio transcript audio selected = audio"
proof -
  from edit_loop_keeps_all [OF _ assms, of audio selected 0] obtain l' where
    l': "0 \<le> l'"
    "foldl (edit_step audio selected) ([], 0) (enumerate 0 transcript) = (take (nat l') audio, l')"
    by auto
  then show ?thesis
    by (auto simp: edited_audio_def slice_from_nonneg len_def)
qed

lemma mock_spans:
  "map (\<lambda>w. (start_ms w, end_ms w)) MOCK_TRANSCRIPT_DATA =
     [(100, 500), (550, 800), (900, 1200), (1250, 1400), (1450, 1500),
      (1550, 1900), (1950, 2100), (2150, 2300), (2350, 2700), (2750, 3200),
      (3300, 3600), (3650, 3800), (3850, 4000), (4050, 4200), (4250, 4600),
      (4650, 4900), (4950, 5050), (5100, 5500), (5550, 5800), (5850, 6500)]"
  by (simp add: MOCK_TRANSCRIPT_DATA_def start_ms_def end_ms_def py_int_def)

lemma mock_chain: "chain 6500 0 (map (\<lambda>w. (start_ms w, end_ms w)) MOCK_TRANSCRIPT_DATA)"
  unfolding mock_spans by simp

lemma mock_edited_audio: "edited_audio MOCK_TRANSCRIPT_DATA audio selected = audio"
  using mock_chain by (rule edited_audio_keeps_all)

lemma mock_second_word: "py_nth MOCK_TRANSCRIPT_DATA 1 = Inr \<lparr>word = ''um,'', start_s = 0.55, end_s = 0.80\<rparr>"
  by (simp add: py_nth_def len_def MOCK_TRANSCRIPT_DATA_def)

lemma output_path_talk: "generate_blank_output_path ''talk.mp3'' ''_edited'' = ''talk_edited.mp3''"
  by (simp add: generate_blank_output_path_def splitext_def basename_def)

text \<open>
  Claim C1 (explicit selection), what the code does. A selected word is only not appended;
  \<open>last_kept_end_ms\<close> stays where it was, so the gap \<open>audio[last_kept_end_ms:start_ms]\<close>
  of the next kept word, or the tail after the loop, brings the span of the selected word
  back. For the transcript of the program the new audio is the input audio for every
  selection; with the word \<open>um,\<close> (index 1, 550 to 800 ms) selected, the file exported
  holds the whole input while the log reports the word as removed.
\<close>
theorem process_edited_audio_keeps_selected_word:
  "edited_audio MOCK_TRANSCRIPT_DATA audio selected_indices = audio
   \<and> process_edited_audio (Some ''talk.mp3'') (Some (JArray [JInt 1])) (Inr audio)
     = (Inr (Some ''talk_edited.mp3'',
             ''Successfully removed the following segments (words selected by user): um,''),
        Some (Export ''talk_edited.mp3'' audio ''mp3''))"
  by (simp add: mock_edited_audio process_edited_audio_def selected_indices_of_def
      mock_second_word output_path_talk log_message_def Let_def)

theorem process_edited_audio_keeps_selected_word_witness:
  "edited_audio MOCK_TRANSCRIPT_DATA (map Orig [0 ..< 6500]) {1} = map Orig [0 ..< 6500]
   \<and> process_edited_audio (Some ''talk.mp3'') (Some (JArray [JInt 1])) (Inr (map Orig [0 ..< 6500]))
     = (Inr (Some ''talk_edited.mp3'',
             ''Successfully removed the following segments (words selected by user): um,''),
        Some (Export ''talk_edited.mp3'' (map Orig [0 ..< 6500]) ''mp3''))"
  by (rule process_edited_audio_keeps_selected_word)

text \<open>
  Claim C8 (malformed selection input), what the code does. Only \<open>JSONDecodeError\<close> is
  caught around the parse: a string that is not JSON gives the error message and no export,
  but the JSON text \<open>["a"]\<close> makes \<open>int\<close> raise \<open>ValueError\<close>, and the JSON text
  \<open>5\<close> makes the iteration raise \<open>TypeError\<close>; both escape (no file is exported).
\<close>
theorem process_edited_audio_bad_item_raises:
  "process_edited_audio (Some path) (Some (JArray [JString ''a''])) loaded = (Inl ValueError, None)
   \<and> process_edited_audio (Some path) (Some (JInt 5)) loaded = (Inl TypeError, None)
   \<and> process_edited_audio (Some path) None loaded
       = (Inr (None, ''Error: Could not parse selected words.''), None)"
  by (simp add: process_edited_audio_def selected_indices_of_def int_of_str_def strip_def
      char_defs)

theorem process_edited_audio_bad_item_raises_witness:
  "process_edited_audio (Some ''talk.mp3'') (Some (JArray [JString ''a''])) (Inr [Orig (0::nat)])
      = (Inl ValueError, None)
   \<and> process_edited_audio (Some ''talk.mp3'') (Some (JInt 5)) (Inr [Orig (0::nat)])
      = (Inl TypeError, None)
   \<and> process_edited_audio (Some ''talk.mp3'') None (Inr [Orig (0::nat)])
       = (Inr (None, ''Error: Could not parse selected words.''), None)"
  by (rule process_edited_audio_bad_item_raises)

end
